theory Spec2Isabelle
  imports Main
begin

section \<open>Python strings and lists\<close>

text \<open>
  A Python \<open>str\<close> is modelled as a \<open>string\<close>, one \<open>char\<close> per character of the
  Python string, so that \<open>length\<close> is Python's \<open>len\<close>. Only the characters
  \<open>;\<close>, \<open>,\<close> and the space are ever inspected by the code.
\<close>

text \<open>\<open>s.replace(old, new)\<close> for a one-character \<open>old\<close>.\<close>

definition replace :: "char \<Rightarrow> string \<Rightarrow> string \<Rightarrow> string" where
  "replace old new s = concat (map (\<lambda>c. if c = old then new else [c]) s)"

text \<open>\<open>s.startswith(c)\<close> and \<open>s.endswith(c)\<close> for a one-character \<open>c\<close>.\<close>

fun startswith :: "string \<Rightarrow> char \<Rightarrow> bool" where
  "startswith [] c = False"
| "startswith (x # xs) c = (x = c)"

fun endswith :: "string \<Rightarrow> char \<Rightarrow> bool" where
  "endswith [] c = False"
| "endswith [x] c = (x = c)"
| "endswith (x # y # ys) c = endswith (y # ys) c"

text \<open>
  \<open>s.split(sep)\<close> for a one-character separator: the empty string splits into one
  empty field, and \<open>n\<close> separators give \<open>n + 1\<close> fields.
\<close>

fun split :: "char \<Rightarrow> string \<Rightarrow> string list" where
  "split sep [] = [[]]"
| "split sep (c # cs) =
     (if c = sep then [] # split sep cs
      else (case split sep cs of
              [] \<Rightarrow> [[c]]
            | w # ws \<Rightarrow> (c # w) # ws))"

text \<open>\<open>sep.join(xs)\<close>.\<close>

fun join :: "string \<Rightarrow> string list \<Rightarrow> string" where
  "join sep [] = []"
| "join sep [x] = x"
| "join sep (x # y # ys) = x @ sep @ join sep (y # ys)"

section \<open>The node\<close>

datatype error = IndexError | TypeError

text \<open>
  The values a NetJSON mapping holds. A dictionary is an object on the heap and
  \<open>PRef\<close> is a reference to it: two references to one dictionary see each other's
  writes, as in Python.
\<close>

datatype pyval =
    PNone
  | PStr string
  | PList "string list"
  | PTime int
  | PRef nat

text \<open>An \<open>OrderedDict\<close>: the keys in insertion order.\<close>

type_synonym pydict = "(string \<times> pyval) list"

type_synonym heap = "nat \<Rightarrow> pydict"

text \<open>\<open>d[k] = v\<close>: an existing key keeps its place, a new key goes last.\<close>

fun setitem :: "pydict \<Rightarrow> string \<Rightarrow> pyval \<Rightarrow> pydict" where
  "setitem [] k v = [(k, v)]"
| "setitem ((k', v') # d) k v =
     (if k' = k then (k, v) # d else (k', v') # setitem d k v)"

text \<open>
  An instance of \<open>AbstractNode\<close>. \<open>pk\<close> is the primary key, \<open>topology\<close> the key of
  the owning topology; \<open>created\<close> and \<open>modified\<close> are the timestamps of
  \<open>TimeStampedEditableModel\<close>, in microseconds. \<open>properties\<close> is a reference to the
  dictionary held by the field, or \<open>None\<close> for Python's \<open>None\<close>. The last two fields are
  the values \<open>cached_property\<close> keeps in the instance: \<open>None\<close> before the first read.
\<close>

record node =
  pk :: nat
  topology :: nat
  label :: string
  addresses :: string
  properties :: "nat option"
  created :: int
  modified :: int
  address_list_cache :: "string list option"
  local_addresses_cache :: "string list option option"

text \<open>\<open>max_length\<close> of the \<open>addresses\<close> field.\<close>

definition addresses_max_length :: nat where
  "addresses_max_length = 510"

text \<open>
  \<open>_format_addresses\<close>: commas become semicolons, spaces are removed, the third
  \<open>replace\<close> maps \<open>;\<close> to itself; then the bounding semicolons are added where absent.
\<close>

definition format_addresses :: "node \<Rightarrow> node" where
  "format_addresses self =
     (let a = replace (CHR '';'') '';'' (replace (CHR '' '') '''' (replace (CHR '','') '';'' (addresses self)));
          a = (if \<not> startswith a (CHR '';'') then '';'' @ a else a);
          a = (if \<not> endswith a (CHR '';'') then a @ '';'' else a)
      in self\<lparr>addresses := a\<rparr>)"

text \<open>
  The string \<open>_format_addresses\<close> stores, written on the string alone: the three
  \<open>replace\<close> calls as a map and a filter. \<open>format_addresses_eq\<close> below proves that
  this is what \<open>format_addresses\<close> computes.
\<close>

definition normalize :: "string \<Rightarrow> string" where
  "normalize s = (let a = map (\<lambda>x. if x = CHR '','' then CHR '';'' else x) s;
     a = filter (\<lambda>x. x \<noteq> CHR '' '') a;
     a = (if startswith a (CHR '';'') then a else CHR '';'' # a) in
     (if endswith a (CHR '';'') then a else a @ '';''))"

text \<open>
  The body of \<open>address_list\<close>: spaces removed, one leading semicolon dropped
  (\<open>addresses[1:]\<close>), the last character dropped (\<open>addresses[0:-1]\<close>, which is the
  empty string for the empty string), and the rest split at the semicolons.
\<close>

definition address_list_body :: "string \<Rightarrow> string list" where
  "address_list_body s =
     (let a = replace (CHR '' '') '''' s;
          a = (if startswith a (CHR '';'') then tl a else a)
      in split (CHR '';'') (butlast a))"

text \<open>
  \<open>address_list\<close> is a \<open>cached_property\<close>: the first read computes the list and stores
  it in the instance, every later read returns the stored list. The result is the list
  and the instance after the read.
\<close>

definition address_list :: "node \<Rightarrow> string list \<times> node" where
  "address_list self =
     (case address_list_cache self of
        Some l \<Rightarrow> (l, self)
      | None \<Rightarrow>
          (let l = address_list_body (addresses self)
           in (l, self\<lparr>address_list_cache := Some l\<rparr>)))"

text \<open>
  The loop of \<open>truncate_addresses\<close>: \<open>addresses.pop()\<close> removes the last element and
  raises \<open>IndexError\<close> on the empty list.
\<close>

function truncate_loop :: "nat \<Rightarrow> string list \<Rightarrow> error + string list" where
  "truncate_loop max_length addrs =
     (if length (join '';'' addrs) + 2 > max_length
      then (if addrs = [] then Inl IndexError
            else truncate_loop max_length (butlast addrs))
      else Inr addrs)"
  by pat_completeness auto
termination
  by (relation "measure (\<lambda>(m, xs). length xs)") auto

declare truncate_loop.simps [simp del]

text \<open>
  \<open>truncate_addresses\<close>. The local \<open>addresses\<close> is the very list that the cached
  property holds, so what \<open>pop\<close> removes is removed from the cached list too: the
  instance ends with the shortened list as its \<open>address_list\<close>.
\<close>

definition truncate_addresses :: "node \<Rightarrow> error + node" where
  "truncate_addresses self =
     (let max_length = addresses_max_length in
      if length (addresses self) \<le> max_length then Inr self
      else
        (let (addrs, self1) = address_list self in
         case truncate_loop max_length addrs of
           Inl e \<Rightarrow> Inl e
         | Inr addrs' \<Rightarrow>
             Inr (self1\<lparr>address_list_cache := Some addrs',
                        addresses := join '';'' addrs'\<rparr>)))"

text \<open>
  \<open>netjson_id\<close>: \<open>None\<close> when \<open>addresses\<close> is the empty string, else the first element
  of \<open>address_list\<close> (\<open>IndexError\<close> when that list is empty).
\<close>

definition netjson_id :: "node \<Rightarrow> error + (string option \<times> node)" where
  "netjson_id self =
     (if addresses self \<noteq> [] then
        (let (l, self1) = address_list self in
         case l of
           [] \<Rightarrow> Inl IndexError
         | a # _ \<Rightarrow> Inr (Some a, self1))
      else Inr (None, self))"

text \<open>
  \<open>local_addresses\<close>, a \<open>cached_property\<close> too: the elements after the first when
  \<open>addresses\<close> is not empty and the list has more than one element, else \<open>None\<close>
  (the function falls off its end). The value returned, also \<open>None\<close>, is stored.
\<close>

definition local_addresses :: "node \<Rightarrow> string list option \<times> node" where
  "local_addresses self =
     (case local_addresses_cache self of
        Some v \<Rightarrow> (v, self)
      | None \<Rightarrow>
          (let (v, self1) =
                 (if addresses self \<noteq> [] then
                    (let (l, self1) = address_list self in
                     if length l > 1 then (Some (tl l), self1) else (None, self1))
                  else (None, self))
           in (v, self1\<lparr>local_addresses_cache := Some v\<rparr>)))"

text \<open>Python's truth of a value; a dictionary is true when it has a key.\<close>

fun truthy :: "heap \<Rightarrow> pyval \<Rightarrow> bool" where
  "truthy h PNone = False"
| "truthy h (PStr s) = (s \<noteq> [])"
| "truthy h (PList l) = (l \<noteq> [])"
| "truthy h (PTime t) = True"
| "truthy h (PRef r) = (h r \<noteq> [])"

definition opt_str :: "string option \<Rightarrow> pyval" where
  "opt_str v = (case v of None \<Rightarrow> PNone | Some s \<Rightarrow> PStr s)"

definition opt_list :: "string list option \<Rightarrow> pyval" where
  "opt_list v = (case v of None \<Rightarrow> PNone | Some l \<Rightarrow> PList l)"

definition opt_ref :: "nat option \<Rightarrow> pyval" where
  "opt_ref v = (case v of None \<Rightarrow> PNone | Some r \<Rightarrow> PRef r)"

text \<open>
  \<open>netjson['properties'][k] = v\<close>: the value under \<open>properties\<close> is looked up in the
  mapping built so far and the write goes to the object it refers to. \<open>None\<close> does not
  support item assignment (\<open>TypeError\<close>).
\<close>

definition set_properties_item :: "pydict \<Rightarrow> string \<Rightarrow> pyval \<Rightarrow> heap \<Rightarrow> error + heap" where
  "set_properties_item netjson k v h =
     (case map_of netjson ''properties'' of
        Some (PRef r) \<Rightarrow> Inr (h(r := setitem (h r) k v))
      | _ \<Rightarrow> Inl TypeError)"

text \<open>
  What \<open>json\<close> returns: the mapping when \<open>dict\<close> is true, else the text that
  \<open>json.dumps\<close> makes of it. The encoder is not part of this code and is a parameter.
\<close>

datatype json_result = JDict pydict | JText string

text \<open>
  \<open>json\<close>. The mapping starts with \<open>id\<close>; \<open>label\<close> and \<open>local_addresses\<close> are stored
  when true, \<open>properties\<close> always, and what is stored under \<open>properties\<close> is the
  field's own value: the reference to the node's dictionary. The two timestamps are then
  written through that reference. The result comes with the instance (its caches filled by
  the reads) and the heap after the call.
\<close>

definition json :: "(pydict \<Rightarrow> heap \<Rightarrow> string) \<Rightarrow> bool \<Rightarrow> node \<Rightarrow> heap
    \<Rightarrow> error + (json_result \<times> node \<times> heap)" where
  "json dumps dict self h =
     (case netjson_id self of
        Inl e \<Rightarrow> Inl e
      | Inr (nid, self1) \<Rightarrow>
          (let netjson = [(''id'', opt_str nid)];
               netjson = (if truthy h (PStr (label self1))
                          then setitem netjson ''label'' (PStr (label self1)) else netjson);
               (la, self2) = local_addresses self1;
               netjson = (if truthy h (opt_list la)
                          then setitem netjson ''local_addresses'' (opt_list la) else netjson);
               netjson = setitem netjson ''properties'' (opt_ref (properties self2))
           in case set_properties_item netjson ''created'' (PTime (created self2)) h of
                Inl e \<Rightarrow> Inl e
              | Inr h1 \<Rightarrow>
                  (case set_properties_item netjson ''modified'' (PTime (modified self2)) h1 of
                     Inl e \<Rightarrow> Inl e
                   | Inr h2 \<Rightarrow>
                       Inr (if dict then JDict netjson else JText (dumps netjson h2),
                            self2, h2))))"

section \<open>The persistence layer\<close>

text \<open>
  Modelled from the spec: the link entity and the tables of the persistence layer are not
  part of this code. A link refers to its source and target node by primary key; the
  database holds the rows of the node table and of the link table. A row of the node
  table is written as a \<open>node\<close>; the queries below read its columns only.
\<close>

record link =
  source :: nat
  target :: nat

record database =
  nodes :: "node list"
  links :: "link list"

text \<open>
  Modelled from the spec: the write of the persistence layer (\<open>super().save\<close>), which
  replaces the row with the instance's primary key or adds a row. The column is stored as
  it is handed over.
\<close>

fun write_row :: "node \<Rightarrow> node list \<Rightarrow> node list" where
  "write_row n [] = [n]"
| "write_row n (r # rs) = (if pk r = pk n then n # rs else r # write_row n rs)"

definition super_save :: "node \<Rightarrow> database \<Rightarrow> database" where
  "super_save self db = db\<lparr>nodes := write_row self (nodes db)\<rparr>"

text \<open>\<open>save\<close>: \<open>_format_addresses\<close>, then the write.\<close>

definition save :: "node \<Rightarrow> database \<Rightarrow> node \<times> database" where
  "save self db = (let self1 = format_addresses self in (self1, super_save self1 db))"

text \<open>
  Modelled from the spec: the \<open>contains\<close> lookup of the persistence layer, a
  case-sensitive substring test.
\<close>

fun is_prefix :: "string \<Rightarrow> string \<Rightarrow> bool" where
  "is_prefix [] s = True"
| "is_prefix (p # ps) [] = False"
| "is_prefix (p # ps) (c # cs) = (p = c \<and> is_prefix ps cs)"

fun contains :: "string \<Rightarrow> string \<Rightarrow> bool" where
  "contains [] pat = (pat = [])"
| "contains (c # cs) pat = (is_prefix pat (c # cs) \<or> contains cs pat)"

text \<open>
  Modelled from the spec: \<open>first()\<close> on a query without an ordering takes the row with
  the least primary key, and gives \<open>None\<close> when no row matches.
\<close>

fun first :: "node list \<Rightarrow> node option" where
  "first [] = None"
| "first (r # rs) =
     (case first rs of
        None \<Rightarrow> Some r
      | Some m \<Rightarrow> if pk r \<le> pk m then Some r else Some m)"

text \<open>\<open>';{0};'.format(address)\<close>.\<close>

definition bounded_address :: "string \<Rightarrow> string" where
  "bounded_address address = '';'' @ address @ '';''"

text \<open>
  \<open>filter(topology=topology, addresses__contains=address)\<close>, shared by the two
  lookups.
\<close>

definition filter_address :: "string \<Rightarrow> nat \<Rightarrow> database \<Rightarrow> node list" where
  "filter_address address topo db =
     filter (\<lambda>n. topology n = topo \<and> contains (addresses n) address) (nodes db)"

definition get_from_address :: "string \<Rightarrow> nat \<Rightarrow> database \<Rightarrow> node option" where
  "get_from_address address topo db =
     (let address = bounded_address address in first (filter_address address topo db))"

definition count_address :: "string \<Rightarrow> nat \<Rightarrow> database \<Rightarrow> nat" where
  "count_address address topo db =
     (let address = bounded_address address in length (filter_address address topo db))"

section \<open>The expiration sweep\<close>

text \<open>
  The value of a setting: \<open>None\<close>, a boolean or an integer. The settings module is not
  part of this code; the two values the sweep reads are parameters.
\<close>

datatype setting = SNone | SBool bool | SInt int

text \<open>
  \<open>x in [False, None]\<close> compares with \<open>==\<close>: \<open>False\<close> and \<open>None\<close> are in the list, and
  so is the integer \<open>0\<close>, which equals \<open>False\<close> in Python.
\<close>

fun in_False_None :: "setting \<Rightarrow> bool" where
  "in_False_None SNone = True"
| "in_False_None (SBool b) = (\<not> b)"
| "in_False_None (SInt i) = (i = 0)"

text \<open>\<open>int(x)\<close>; \<open>int(None)\<close> raises \<open>TypeError\<close>.\<close>

fun to_int :: "setting \<Rightarrow> error + int" where
  "to_int SNone = Inl TypeError"
| "to_int (SBool b) = Inr (if b then 1 else 0)"
| "to_int (SInt i) = Inr i"

text \<open>\<open>timedelta(days=d)\<close>, in microseconds.\<close>

definition timedelta_days :: "int \<Rightarrow> int" where
  "timedelta_days d = d * 86400000000"

text \<open>
  \<open>filter(modified__lt=expiration_date, source_link_set__isnull=True,
  target_link_set__isnull=True)\<close>: the rows modified before the date that no link has as
  its source and no link has as its target.
\<close>

definition filter_expired :: "int \<Rightarrow> database \<Rightarrow> node list" where
  "filter_expired expiration_date db =
     filter (\<lambda>n. modified n < expiration_date
                \<and> filter (\<lambda>l. source l = pk n) (links db) = []
                \<and> filter (\<lambda>l. target l = pk n) (links db) = [])
            (nodes db)"

text \<open>
  Modelled from the spec: \<open>node.delete()\<close> removes the row with the node's primary key.
\<close>

definition delete :: "node \<Rightarrow> database \<Rightarrow> database" where
  "delete self db = db\<lparr>nodes := filter (\<lambda>r. pk r \<noteq> pk self) (nodes db)\<rparr>"

text \<open>The loop \<open>for node in expired_nodes: node.delete()\<close>.\<close>

fun delete_each :: "node list \<Rightarrow> database \<Rightarrow> database" where
  "delete_each [] db = db"
| "delete_each (n # ns) db = delete_each ns (delete n db)"

text \<open>
  \<open>delete_expired_nodes\<close>, given the two settings and the value of \<open>now()\<close>. The result
  is the database after the sweep and the counts \<open>print_info\<close> was called with.
\<close>

definition delete_expired_nodes :: "setting \<Rightarrow> setting \<Rightarrow> int \<Rightarrow> database
    \<Rightarrow> error + (database \<times> nat list)" where
  "delete_expired_nodes NODE_EXPIRATION LINK_EXPIRATION now db =
     (if \<not> in_False_None NODE_EXPIRATION \<and> \<not> in_False_None LINK_EXPIRATION then
        (case to_int NODE_EXPIRATION of
           Inl e \<Rightarrow> Inl e
         | Inr d \<Rightarrow>
             (let expiration_date = now - timedelta_days d;
                  expired_nodes = filter_expired expiration_date db;
                  expired_nodes_length = length expired_nodes
              in if expired_nodes_length \<noteq> 0
                 then Inr (delete_each expired_nodes db, [expired_nodes_length])
                 else Inr (db, [])))
      else Inr (db, []))"

section \<open>Concrete inputs\<close>

text \<open>
  A freshly loaded node with no address, an empty \<open>properties\<close> dictionary at
  reference \<open>0\<close> of \<open>heap0\<close> and nothing cached; the inputs below change its
  \<open>addresses\<close>.
\<close>

definition node0 :: node where
  "node0 = \<lparr>pk = 1, topology = 1, label = [], addresses = [],
            properties = Some 0, created = 5, modified = 6,
            address_list_cache = None, local_addresses_cache = None\<rparr>"

definition heap0 :: heap where
  "heap0 = (\<lambda>r. [])"

definition db0 :: database where
  "db0 = \<lparr>nodes = [], links = []\<rparr>"

text \<open>One address of 600 characters, as raw input.\<close>

definition long_node :: node where
  "long_node = node0\<lparr>addresses := replicate 600 (CHR ''a'')\<rparr>"

text \<open>Two addresses of 300 characters each, in the stored form: 603 characters.\<close>

definition two_long :: node where
  "two_long = node0\<lparr>addresses :=
     '';'' @ replicate 300 (CHR ''a'') @ '';'' @ replicate 300 (CHR ''b'') @ '';''\<rparr>"

text \<open>A table with the nodes \<open>10.0.0.1\<close> and \<open>10.0.0.10\<close> of topology 1.\<close>

definition node_1 :: node where
  "node_1 = node0\<lparr>pk := 1, addresses := '';10.0.0.1;''\<rparr>"

definition node_10 :: node where
  "node_10 = node0\<lparr>pk := 2, addresses := '';10.0.0.10;''\<rparr>"

definition lookup_db :: database where
  "lookup_db = \<lparr>nodes = [node_1, node_10], links = []\<rparr>"

text \<open>
  The sweep scenario: \<open>now\<close> is day 40; nodes 1 and 2 were modified on day 0, node 3 on
  day 30, node 4 on day 40; one link goes from node 2 to node 4.
\<close>

definition now0 :: int where
  "now0 = 40 * 86400000000"

definition sweep_db :: database where
  "sweep_db = \<lparr>nodes = [node0\<lparr>pk := 1, modified := 0\<rparr>,
                         node0\<lparr>pk := 2, modified := 0\<rparr>,
                         node0\<lparr>pk := 3, modified := 30 * 86400000000\<rparr>,
                         node0\<lparr>pk := 4, modified := 40 * 86400000000\<rparr>],
               links = [\<lparr>source = 2, target = 4\<rparr>]\<rparr>"

section \<open>Strings: lemmas\<close>

lemma split_not_Nil: "split sep s \<noteq> []"
  by (induction s) (auto split: list.splits)

lemma replace_empty: "replace c [] s = filter (\<lambda>x. x \<noteq> c) s"
  by (induction s) (auto simp: replace_def)

lemma replace_single: "replace c [d] s = map (\<lambda>x. if x = c then d else x) s"
  by (induction s) (auto simp: replace_def)

lemma startswith_iff: "startswith s c \<longleftrightarrow> (\<exists>t. s = c # t)"
  by (cases s) auto

lemma endswith_last: "endswith s c \<longleftrightarrow> (s \<noteq> [] \<and> last s = c)"
  by (induction s c rule: endswith.induct) auto

lemma endswith_iff: "endswith s c \<longleftrightarrow> (\<exists>t. s = t @ [c])"
  by (metis endswith_last snoc_eq_iff_butlast)

lemma endswith_append: "endswith (s @ [c]) d \<longleftrightarrow> c = d"
  by (simp add: endswith_last)

lemma map_id_semicolon: "map (\<lambda>x. if x = CHR '';'' then CHR '';'' else x) s = s"
  by (induction s) auto

lemma format_addresses_eq: "addresses (format_addresses n) = normalize (addresses n)"
  by (simp add: format_addresses_def normalize_def Let_def replace_empty replace_single map_id_semicolon)

lemma truncate_loop_total: "2 \<le> ml \<Longrightarrow> \<exists>ys. truncate_loop ml xs = Inr ys"
proof (induction ml xs rule: truncate_loop.induct)
  case (1 ml xs)
  show ?case
  proof (cases "xs = []")
    case True
    then show ?thesis using 1(2) by (subst truncate_loop.simps) simp
  next
    case False
    then show ?thesis using 1 by (subst truncate_loop.simps) simp
  qed
qed

lemma truncate_loop_result:
  "truncate_loop ml xs = Inr ys \<Longrightarrow> (\<exists>k. ys = take k xs) \<and> length (join '';'' ys) + 2 \<le> ml"
proof (induction ml xs rule: truncate_loop.induct)
  case (1 ml xs)
  show ?case
  proof (cases "length (join '';'' xs) + 2 > ml")
    case False
    with 1(2) have "ys = xs" by (simp add: truncate_loop.simps[of ml xs])
    then show ?thesis using False by (auto intro: exI[of _ "length xs"])
  next
    case True
    with 1(2) have ne: "xs \<noteq> []" and r: "truncate_loop ml (butlast xs) = Inr ys"
      by (auto simp: truncate_loop.simps[of ml xs] split: if_splits)
    from 1(1)[OF True ne r] obtain k where "ys = take k (butlast xs)" and b: "length (join '';'' ys) + 2 \<le> ml" by blast
    then have "ys = take (min k (length xs - 1)) xs" by (simp add: butlast_conv_take)
    then show ?thesis using b by blast
  qed
qed

lemma truncate_loop_crash: "truncate_loop 1 [] = Inl IndexError"
  by (subst truncate_loop.simps) simp

lemma format_addresses_fields:
  "address_list_cache (format_addresses n) = address_list_cache n"
  "local_addresses_cache (format_addresses n) = local_addresses_cache n"
  "pk (format_addresses n) = pk n"
  by (simp_all add: format_addresses_def Let_def)

lemma normalize_startswith: "startswith (normalize s) (CHR '';'')"
  by (auto simp: normalize_def Let_def startswith_iff)

lemma normalize_endswith: "endswith (normalize s) (CHR '';'')"
  by (simp add: normalize_def Let_def endswith_append)

lemma normalize_no_space: "CHR '' '' \<notin> set (normalize s)"
  by (auto simp: normalize_def Let_def)

lemma normalize_no_comma: "CHR '','' \<notin> set (normalize s)"
  by (auto simp: normalize_def Let_def)

lemma length_filter_map_le: "length (filter P (map f s)) \<le> length s"
  by (rule le_trans[OF length_filter_le]) simp

lemma normalize_length: "length (normalize s) \<le> length s + 2"
proof -
  define a where "a = filter (\<lambda>x. x \<noteq> CHR '' '') (map (\<lambda>x. if x = CHR '','' then CHR '';'' else x) s)"
  have "length a \<le> length s"
    unfolding a_def by (rule length_filter_map_le)
  moreover have "normalize s =
      (let b = (if startswith a (CHR '';'') then a else CHR '';'' # a)
       in if endswith b (CHR '';'') then b else b @ '';'')"
    by (simp only: normalize_def a_def Let_def)
  ultimately show ?thesis by (simp add: Let_def)
qed

lemma normalize_fixed:
  assumes "startswith s (CHR '';'')" "endswith s (CHR '';'')"
    "CHR '' '' \<notin> set s" "CHR '','' \<notin> set s"
  shows "normalize s = s"
proof -
  have "map (\<lambda>x. if x = CHR '','' then CHR '';'' else x) s = s"
    using assms(4) by (induction s) auto
  moreover have "filter (\<lambda>x. x \<noteq> CHR '' '') s = s"
    using assms(3) by (induction s) auto
  ultimately show ?thesis using assms(1,2) by (simp add: normalize_def Let_def)
qed

lemma normalize_idem: "normalize (normalize s) = normalize s"
  by (rule normalize_fixed) (rule normalize_startswith normalize_endswith normalize_no_space normalize_no_comma)+

lemma normalize_other_chars:
  "filter (\<lambda>c. c \<noteq> CHR '' '' \<and> c \<noteq> CHR '','' \<and> c \<noteq> CHR '';'') (normalize s)
   = filter (\<lambda>c. c \<noteq> CHR '' '' \<and> c \<noteq> CHR '','' \<and> c \<noteq> CHR '';'') s"
proof -
  have "filter (\<lambda>c. c \<noteq> CHR '' '' \<and> c \<noteq> CHR '','' \<and> c \<noteq> CHR '';'')
          (filter (\<lambda>x. x \<noteq> CHR '' '') (map (\<lambda>x. if x = CHR '','' then CHR '';'' else x) s))
        = filter (\<lambda>c. c \<noteq> CHR '' '' \<and> c \<noteq> CHR '','' \<and> c \<noteq> CHR '';'') s"
    by (induction s) auto
  then show ?thesis by (simp add: normalize_def Let_def)
qed

section \<open>Address normalization\<close>

text \<open>
  Claim C6, as amended. \<open>_format_addresses\<close> removes the space character and nothing
  else of the whitespace: the stored string has no space, and every character other than
  the space, the comma and the semicolon (a tab and a newline among them) is kept, in
  its order.
\<close>

theorem format_addresses_removes_spaces_only:
  "CHR '' '' \<notin> set (addresses (format_addresses n))
   \<and> filter (\<lambda>c. c \<noteq> CHR '' '' \<and> c \<noteq> CHR '','' \<and> c \<noteq> CHR '';'') (addresses (format_addresses n))
     = filter (\<lambda>c. c \<noteq> CHR '' '' \<and> c \<noteq> CHR '','' \<and> c \<noteq> CHR '';'') (addresses n)"
  by (simp add: format_addresses_eq normalize_no_space normalize_other_chars)

text \<open>
  Claim C6 as stated fails: the raw input \<open>a<TAB>b\<close> keeps its tab (character
  \<open>0x09\<close>).
\<close>

theorem format_addresses_keeps_tab:
  "CHR 0x09 \<in> set (addresses (format_addresses (node0\<lparr>addresses := [CHR ''a'', CHR 0x09, CHR ''b'']\<rparr>)))"
  by (simp add: format_addresses_eq normalize_def node0_def)

text \<open>
  Claim C3, as amended. Normalizing the empty raw string stores the single delimiter
  \<open>;\<close>; for that node, read afresh, \<open>netjson_id\<close> is the empty string, not \<open>None\<close>.
  \<open>netjson_id\<close> is \<open>None\<close> only while \<open>addresses\<close> is still the empty string.
\<close>

theorem format_addresses_empty:
  "addresses (format_addresses (n\<lparr>addresses := []\<rparr>)) = '';''
   \<and> map_sum id fst (netjson_id (format_addresses (n\<lparr>addresses := [], address_list_cache := None\<rparr>))) = Inr (Some [])
   \<and> map_sum id fst (netjson_id (n\<lparr>addresses := []\<rparr>)) = Inr None"
  by (simp add: format_addresses_def replace_def netjson_id_def address_list_def address_list_body_def Let_def)

text \<open>
  Claim C3 as stated fails: the empty raw string is not normalized to \<open>;;\<close>.
\<close>

theorem format_addresses_empty_not_two_delimiters:
  "addresses (format_addresses (node0\<lparr>addresses := []\<rparr>)) \<noteq> '';;''"
  by (simp add: format_addresses_eq normalize_def)



section \<open>Truncation\<close>

lemma truncate_addresses_short:
  "length (addresses n) \<le> addresses_max_length \<Longrightarrow> truncate_addresses n = Inr n"
  by (simp add: truncate_addresses_def Let_def)

lemma address_list_snd:
  "snd (address_list n) = n\<lparr>address_list_cache := Some (fst (address_list n))\<rparr>"
  by (cases "address_list_cache n") (simp_all add: address_list_def Let_def)

lemma truncate_addresses_long:
  assumes "addresses_max_length < length (addresses n)"
  shows "\<exists>k. truncate_addresses n =
            Inr (n\<lparr>address_list_cache := Some (take k (fst (address_list n))),
                    addresses := join '';'' (take k (fst (address_list n)))\<rparr>)
          \<and> length (join '';'' (take k (fst (address_list n)))) + 2 \<le> addresses_max_length"
proof -
  obtain ys where ys: "truncate_loop addresses_max_length (fst (address_list n)) = Inr ys"
    using truncate_loop_total[of addresses_max_length] by (auto simp: addresses_max_length_def)
  from truncate_loop_result[OF ys] obtain k where
    k: "ys = take k (fst (address_list n))" and
    b: "length (join '';'' ys) + 2 \<le> addresses_max_length" by blast
  have "truncate_addresses n =
          Inr ((snd (address_list n))\<lparr>address_list_cache := Some ys, addresses := join '';'' ys\<rparr>)"
    using assms ys by (simp add: truncate_addresses_def Let_def case_prod_beta)
  then have "truncate_addresses n =
          Inr (n\<lparr>address_list_cache := Some ys, addresses := join '';'' ys\<rparr>)"
    by (simp add: address_list_snd)
  then show ?thesis using k b by blast
qed

lemma address_list_cached:
  "fst (address_list (n\<lparr>address_list_cache := Some l\<rparr>)) = l"
  "fst (address_list (n\<lparr>address_list_cache := Some l, addresses := a\<rparr>)) = l"
  by (simp_all add: address_list_def)

text \<open>
  Claim C5. For a node whose \<open>addresses\<close> is longer than the maximum,
  \<open>truncate_addresses\<close> returns (no error), the string it stores is no longer than the
  maximum, and the retained addresses, which the node then has as its \<open>address_list\<close>
  and which are joined into the stored string, are a prefix of the address list the
  node had before the call.
\<close>

theorem truncate_addresses_law:
  "addresses_max_length < length (addresses n) \<Longrightarrow>
   \<exists>n' k. truncate_addresses n = Inr n'
     \<and> length (addresses n') \<le> addresses_max_length
     \<and> fst (address_list n') = take k (fst (address_list n))
     \<and> addresses n' = join '';'' (take k (fst (address_list n)))"
proof -
  assume a: "addresses_max_length < length (addresses n)"
  from truncate_addresses_long[OF a] obtain k where
    t: "truncate_addresses n =
            Inr (n\<lparr>address_list_cache := Some (take k (fst (address_list n))),
                    addresses := join '';'' (take k (fst (address_list n)))\<rparr>)"
    and b: "length (join '';'' (take k (fst (address_list n)))) + 2 \<le> addresses_max_length"
    by blast
  define n' where "n' = n\<lparr>address_list_cache := Some (take k (fst (address_list n))),
                    addresses := join '';'' (take k (fst (address_list n)))\<rparr>"
  have "truncate_addresses n = Inr n'"
    using t by (simp only: n'_def)
  moreover have "length (addresses n') \<le> addresses_max_length"
    using b by (simp add: n'_def)
  moreover have "fst (address_list n') = take k (fst (address_list n))"
    by (simp add: n'_def address_list_cached)
  moreover have "addresses n' = join '';'' (take k (fst (address_list n)))"
    by (simp add: n'_def)
  ultimately show ?thesis by blast
qed

lemma two_long_length: "addresses_max_length < length (addresses two_long)"
  by (simp add: two_long_def addresses_max_length_def)

text \<open>The law at the two addresses of 300 characters, 603 characters in all.\<close>

theorem truncate_addresses_law_witness:
  "addresses_max_length < length (addresses two_long) \<and>
   (\<exists>n' k. truncate_addresses two_long = Inr n'
     \<and> length (addresses n') \<le> addresses_max_length
     \<and> fst (address_list n') = take k (fst (address_list two_long))
     \<and> addresses n' = join '';'' (take k (fst (address_list two_long))))"
  using truncate_addresses_law[OF two_long_length] two_long_length by simp

lemma truncate_addresses_total: "\<exists>n'. truncate_addresses n = Inr n'"
proof (cases "length (addresses n) \<le> addresses_max_length")
  case True
  then show ?thesis by (simp add: truncate_addresses_short)
next
  case False
  then have "addresses_max_length < length (addresses n)" by simp
  from truncate_addresses_long[OF this] show ?thesis by blast
qed

lemma truncate_loop_shorter:
  "truncate_loop ml xs = Inr ys \<Longrightarrow> length ys \<le> length xs"
  using truncate_loop_result[of ml xs ys] by auto

lemma truncate_loop_single_long:
  "addresses_max_length < length a + 2 \<Longrightarrow> truncate_loop addresses_max_length [a] = Inr []"
  by (subst truncate_loop.simps, simp, subst truncate_loop.simps, simp add: addresses_max_length_def)

text \<open>
  Claim C7. \<open>truncate_addresses\<close> returns a node for every node: it never raises. The
  loop, defined by recursion on a list that \<open>pop\<close> makes shorter at every step, returns
  for every list a list no longer than its input whose joined length plus two fits the
  maximum; a single address of 600 characters is truncated to the empty list.
\<close>

theorem truncate_addresses_terminates:
  "(\<exists>n'. truncate_addresses n = Inr n')
   \<and> (\<exists>ys. truncate_loop addresses_max_length xs = Inr ys
         \<and> length ys \<le> length xs
         \<and> length (join '';'' ys) + 2 \<le> addresses_max_length)
   \<and> truncate_loop addresses_max_length [replicate 600 (CHR ''a'')] = Inr []"
proof -
  obtain ys where ys: "truncate_loop addresses_max_length xs = Inr ys"
    using truncate_loop_total[of addresses_max_length xs] by (auto simp: addresses_max_length_def)
  have "length ys \<le> length xs" "length (join '';'' ys) + 2 \<le> addresses_max_length"
    using truncate_loop_shorter[OF ys] truncate_loop_result[OF ys] by auto
  moreover have "truncate_loop addresses_max_length [replicate 600 (CHR ''a'')] = Inr []"
    by (rule truncate_loop_single_long) (simp add: addresses_max_length_def)
  ultimately show ?thesis using ys truncate_addresses_total by blast
qed

lemma write_row_mem: "n \<in> set (write_row n rs)"
  by (induction rs) auto

lemma save_fst: "fst (save n db) = format_addresses n"
  by (simp add: save_def Let_def)

lemma save_stored: "fst (save n db) \<in> set (nodes (snd (save n db)))"
  by (simp add: save_def Let_def super_save_def write_row_mem)

lemma format_addresses_idem:
  "addresses (format_addresses (format_addresses n)) = addresses (format_addresses n)"
  by (simp add: format_addresses_eq normalize_idem)

lemma truncate_loop_maximal:
  "truncate_loop ml xs = Inr ys \<Longrightarrow>
   \<exists>k. k \<le> length xs \<and> ys = take k xs
     \<and> (\<forall>j. k < j \<and> j \<le> length xs \<longrightarrow> ml < length (join '';'' (take j xs)) + 2)"
proof (induction ml xs rule: truncate_loop.induct)
  case (1 ml xs)
  show ?case
  proof (cases "length (join '';'' xs) + 2 > ml")
    case False
    with 1(2) have "ys = xs" by (simp add: truncate_loop.simps[of ml xs])
    then have "length xs \<le> length xs \<and> ys = take (length xs) xs
      \<and> (\<forall>j. length xs < j \<and> j \<le> length xs \<longrightarrow> ml < length (join '';'' (take j xs)) + 2)"
      by simp
    then show ?thesis by blast
  next
    case True
    with 1(2) have ne: "xs \<noteq> []" and r: "truncate_loop ml (butlast xs) = Inr ys"
      by (auto simp: truncate_loop.simps[of ml xs] split: if_splits)
    from 1(1)[OF True ne r] obtain k where
      k: "k \<le> length (butlast xs)" "ys = take k (butlast xs)"
      and mx: "\<forall>j. k < j \<and> j \<le> length (butlast xs)
                 \<longrightarrow> ml < length (join '';'' (take j (butlast xs))) + 2"
      by blast
    have kl: "k \<le> length xs" using k(1) by simp
    have k1: "k \<le> length xs - 1" using k(1) by simp
    have tk: "ys = take k xs" using k(2) k1 by (simp add: butlast_conv_take min_absorb1)
    have "ml < length (join '';'' (take j xs)) + 2" if j: "k < j \<and> j \<le> length xs" for j
    proof (cases "j = length xs")
      case True
      then show ?thesis using \<open>length (join '';'' xs) + 2 > ml\<close> by simp
    next
      case False
      then have jl: "j \<le> length (butlast xs)" using j by auto
      then have "j \<le> length xs - 1" by simp
      then have "take j (butlast xs) = take j xs"
        by (simp add: butlast_conv_take min_absorb1)
      then show ?thesis using mx j jl by metis
    qed
    then show ?thesis using kl tk by blast
  qed
qed

lemma truncate_addresses_long_maximal:
  assumes "addresses_max_length < length (addresses n)"
  shows "\<exists>k. k \<le> length (fst (address_list n))
          \<and> truncate_addresses n =
              Inr (n\<lparr>address_list_cache := Some (take k (fst (address_list n))),
                      addresses := join '';'' (take k (fst (address_list n)))\<rparr>)
          \<and> length (join '';'' (take k (fst (address_list n)))) + 2 \<le> addresses_max_length
          \<and> (\<forall>j. k < j \<and> j \<le> length (fst (address_list n))
                \<longrightarrow> addresses_max_length < length (join '';'' (take j (fst (address_list n)))) + 2)"
proof -
  obtain ys where ys: "truncate_loop addresses_max_length (fst (address_list n)) = Inr ys"
    using truncate_loop_total[of addresses_max_length] by (auto simp: addresses_max_length_def)
  from truncate_loop_maximal[OF ys] obtain k where
    kl: "k \<le> length (fst (address_list n))" and
    k: "ys = take k (fst (address_list n))" and
    mx: "\<forall>j. k < j \<and> j \<le> length (fst (address_list n))
            \<longrightarrow> addresses_max_length < length (join '';'' (take j (fst (address_list n)))) + 2"
    by blast
  have b: "length (join '';'' ys) + 2 \<le> addresses_max_length"
    using truncate_loop_result[OF ys] by simp
  have "truncate_addresses n =
          Inr ((snd (address_list n))\<lparr>address_list_cache := Some ys, addresses := join '';'' ys\<rparr>)"
    using assms ys by (simp add: truncate_addresses_def Let_def case_prod_beta)
  then have "truncate_addresses n =
          Inr (n\<lparr>address_list_cache := Some ys, addresses := join '';'' ys\<rparr>)"
    by (simp add: address_list_snd)
  then show ?thesis using kl k b mx by blast
qed

text \<open>
  Claim C2, as amended. \<open>save\<close> normalizes and does not truncate. When
  \<open>truncate_addresses\<close> is applied to the normalized node before the save, it returns,
  and the string the save then stores, in the instance and in the row it writes, is no
  longer than the maximum. A normalized string within the maximum is left and saved as
  it is. A longer one is replaced by the first \<open>k\<close> addresses of the node's address
  list, which the node keeps as its \<open>address_list\<close>: the saved string is exactly the
  normalization of their join, no longer prefix fits the maximum with the two bounding
  characters, and the first address is kept whenever it alone fits. Addresses are dropped
  from the end only.
\<close>

theorem truncate_then_save_bounded:
  "(let m = format_addresses n; l = fst (address_list m) in
    \<exists>n' k. truncate_addresses m = Inr n'
      \<and> length (addresses (fst (save n' db))) \<le> addresses_max_length
      \<and> fst (save n' db) \<in> set (nodes (snd (save n' db)))
      \<and> k \<le> length l
      \<and> fst (address_list n') = take k l
      \<and> (if length (addresses m) \<le> addresses_max_length
         then k = length l \<and> addresses (fst (save n' db)) = addresses m
         else addresses (fst (save n' db)) = normalize (join '';'' (take k l))
            \<and> (\<forall>j. k < j \<and> j \<le> length l
                  \<longrightarrow> addresses_max_length < length (join '';'' (take j l)) + 2)
            \<and> (l \<noteq> [] \<and> length (hd l) + 2 \<le> addresses_max_length
                  \<longrightarrow> 0 < k \<and> hd (fst (address_list n')) = hd l)))"
proof -
  define m where "m = format_addresses n"
  define l where "l = fst (address_list m)"
  have "\<exists>n' k. truncate_addresses m = Inr n'
      \<and> length (addresses (fst (save n' db))) \<le> addresses_max_length
      \<and> fst (save n' db) \<in> set (nodes (snd (save n' db)))
      \<and> k \<le> length l
      \<and> fst (address_list n') = take k l
      \<and> (if length (addresses m) \<le> addresses_max_length
         then k = length l \<and> addresses (fst (save n' db)) = addresses m
         else addresses (fst (save n' db)) = normalize (join '';'' (take k l))
            \<and> (\<forall>j. k < j \<and> j \<le> length l
                  \<longrightarrow> addresses_max_length < length (join '';'' (take j l)) + 2)
            \<and> (l \<noteq> [] \<and> length (hd l) + 2 \<le> addresses_max_length
                  \<longrightarrow> 0 < k \<and> hd (fst (address_list n')) = hd l))"
  proof (cases "length (addresses m) \<le> addresses_max_length")
    case True
    have 1: "truncate_addresses m = Inr m"
      using True by (rule truncate_addresses_short)
    have 2: "addresses (fst (save m db)) = addresses m"
      by (simp add: save_fst m_def format_addresses_idem)
    have 3: "length (addresses (fst (save m db))) \<le> addresses_max_length"
      using True 2 by simp
    have 4: "fst (address_list m) = take (length l) l" by (simp add: l_def)
    have 5: "fst (save m db) \<in> set (nodes (snd (save m db)))" by (rule save_stored)
    show ?thesis
      by (rule exI[of _ m], rule exI[of _ "length l"]) (use True 1 2 3 4 5 in simp)
  next
    case False
    then have "addresses_max_length < length (addresses m)" by simp
    from truncate_addresses_long_maximal[OF this] obtain k where
      kl: "k \<le> length l" and
      t: "truncate_addresses m =
            Inr (m\<lparr>address_list_cache := Some (take k l), addresses := join '';'' (take k l)\<rparr>)"
      and b: "length (join '';'' (take k l)) + 2 \<le> addresses_max_length"
      and mx: "\<forall>j. k < j \<and> j \<le> length l
                \<longrightarrow> addresses_max_length < length (join '';'' (take j l)) + 2"
      unfolding l_def by blast
    define n' where "n' = m\<lparr>address_list_cache := Some (take k l),
                             addresses := join '';'' (take k l)\<rparr>"
    have 1: "truncate_addresses m = Inr n'" using t by (simp only: n'_def)
    have 2: "addresses (fst (save n' db)) = normalize (join '';'' (take k l))"
      by (simp add: save_fst format_addresses_eq n'_def)
    have 3: "length (addresses (fst (save n' db))) \<le> addresses_max_length"
    proof -
      have "length (normalize (join '';'' (take k l))) \<le> length (join '';'' (take k l)) + 2"
        by (rule normalize_length)
      then show ?thesis using b 2 by simp
    qed
    have 4: "fst (address_list n') = take k l"
      by (simp add: n'_def address_list_cached)
    have 5: "fst (save n' db) \<in> set (nodes (snd (save n' db)))" by (rule save_stored)
    have 6: "0 < k \<and> hd (fst (address_list n')) = hd l"
      if h: "l \<noteq> [] \<and> length (hd l) + 2 \<le> addresses_max_length"
    proof -
      have t1: "take 1 l = [hd l]" using h by (cases l) simp_all
      have "0 < k"
      proof (rule ccontr)
        assume "\<not> 0 < k"
        then have "k < 1 \<and> 1 \<le> length l" using h by (cases l) simp_all
        then have "addresses_max_length < length (join '';'' (take 1 l)) + 2"
          using mx by blast
        then show False using h t1 by simp
      qed
      then show ?thesis using 4 by (simp add: hd_take)
    qed
    show ?thesis
      by (rule exI[of _ n'], rule exI[of _ k]) (use False 1 2 3 4 5 6 kl mx in simp)
  qed
  then show ?thesis by (simp only: Let_def m_def l_def)
qed

text \<open>
  The two addresses of 300 characters: the first fits, it is kept and saved between its
  delimiters, the second is dropped.
\<close>

theorem truncate_then_save_bounded_witness:
  "addresses_max_length < length (addresses (format_addresses two_long))
   \<and> fst (address_list (format_addresses two_long)) \<noteq> []
   \<and> length (hd (fst (address_list (format_addresses two_long)))) + 2 \<le> addresses_max_length
   \<and> (\<exists>n' k. truncate_addresses (format_addresses two_long) = Inr n'
        \<and> length (addresses (fst (save n' db0))) \<le> addresses_max_length
        \<and> fst (save n' db0) \<in> set (nodes (snd (save n' db0)))
        \<and> addresses (fst (save n' db0))
            = normalize (join '';'' (take k (fst (address_list (format_addresses two_long)))))
        \<and> 0 < k
        \<and> hd (fst (address_list n')) = hd (fst (address_list (format_addresses two_long))))
   \<and> map_sum id (\<lambda>n'. (addresses (fst (save n' db0)), fst (address_list n')))
        (truncate_addresses (format_addresses two_long))
      = Inr ('';'' @ replicate 300 (CHR ''a'') @ '';'', [replicate 300 (CHR ''a'')])"
proof -
  have h1: "addresses_max_length < length (addresses (format_addresses two_long))"
    by code_simp
  have l2: "fst (address_list (format_addresses two_long))
      = [replicate 300 (CHR ''a''), replicate 300 (CHR ''b'')]"
    by code_simp
  have h2: "fst (address_list (format_addresses two_long)) \<noteq> []"
    by (simp add: l2)
  have h3: "length (hd (fst (address_list (format_addresses two_long)))) + 2 \<le> addresses_max_length"
    by (simp add: l2 addresses_max_length_def)
  have nc: "\<not> length (addresses (format_addresses two_long)) \<le> addresses_max_length"
    using h1 by simp
  obtain n' k where
    p1: "truncate_addresses (format_addresses two_long) = Inr n'" and
    p2: "length (addresses (fst (save n' db0))) \<le> addresses_max_length" and
    p3: "fst (save n' db0) \<in> set (nodes (snd (save n' db0)))" and
    p4: "if length (addresses (format_addresses two_long)) \<le> addresses_max_length
         then k = length (fst (address_list (format_addresses two_long)))
            \<and> addresses (fst (save n' db0)) = addresses (format_addresses two_long)
         else addresses (fst (save n' db0))
              = normalize (join '';'' (take k (fst (address_list (format_addresses two_long)))))
            \<and> (\<forall>j. k < j \<and> j \<le> length (fst (address_list (format_addresses two_long)))
                  \<longrightarrow> addresses_max_length
                      < length (join '';'' (take j (fst (address_list (format_addresses two_long))))) + 2)
            \<and> (fst (address_list (format_addresses two_long)) \<noteq> []
                 \<and> length (hd (fst (address_list (format_addresses two_long)))) + 2 \<le> addresses_max_length
                  \<longrightarrow> 0 < k \<and> hd (fst (address_list n')) = hd (fst (address_list (format_addresses two_long))))"
    using truncate_then_save_bounded[of two_long db0] unfolding Let_def by blast
  from p4 nc have e: "addresses (fst (save n' db0))
              = normalize (join '';'' (take k (fst (address_list (format_addresses two_long)))))"
    and f: "fst (address_list (format_addresses two_long)) \<noteq> []
                 \<and> length (hd (fst (address_list (format_addresses two_long)))) + 2 \<le> addresses_max_length
                  \<longrightarrow> 0 < k \<and> hd (fst (address_list n')) = hd (fst (address_list (format_addresses two_long)))"
    by (simp_all only: if_False) blast+
  from f h2 h3 have g: "0 < k"
    "hd (fst (address_list n')) = hd (fst (address_list (format_addresses two_long)))"
    by blast+
  have d: "map_sum id (\<lambda>n'. (addresses (fst (save n' db0)), fst (address_list n')))
        (truncate_addresses (format_addresses two_long))
      = Inr ('';'' @ replicate 300 (CHR ''a'') @ '';'', [replicate 300 (CHR ''a'')])"
    by code_simp
  show ?thesis using h1 h2 h3 p1 p2 p3 e g d by blast
qed

text \<open>
  Claim C2 as stated fails: saving a node with one raw address of 600 characters stores
  602 characters.
\<close>

theorem save_does_not_truncate:
  "\<not> length (addresses (fst (save long_node db0))) \<le> addresses_max_length"
  by code_simp

text \<open>
  Claim C4, as amended. After \<open>_format_addresses\<close> the stored string starts and ends
  with the delimiter. \<open>truncate_addresses\<close> leaves a string within the maximum as it
  is; a longer one it replaces by the retained addresses joined with the delimiter and
  adds no bounding delimiter; the next \<open>_format_addresses\<close> makes the string start and
  end with the delimiter again.
\<close>

theorem format_addresses_bounded:
  "startswith (addresses (format_addresses n)) (CHR '';'')
   \<and> endswith (addresses (format_addresses n)) (CHR '';'')
   \<and> (\<exists>n' k. truncate_addresses n = Inr n'
        \<and> (if length (addresses n) \<le> addresses_max_length then n' = n
            else addresses n' = join '';'' (take k (fst (address_list n))))
        \<and> startswith (addresses (format_addresses n')) (CHR '';'')
        \<and> endswith (addresses (format_addresses n')) (CHR '';''))"
proof -
  have "\<exists>n' k. truncate_addresses n = Inr n'
        \<and> (if length (addresses n) \<le> addresses_max_length then n' = n
            else addresses n' = join '';'' (take k (fst (address_list n))))"
  proof (cases "length (addresses n) \<le> addresses_max_length")
    case True
    then show ?thesis by (simp add: truncate_addresses_short)
  next
    case False
    then have "addresses_max_length < length (addresses n)" by simp
    from truncate_addresses_long[OF this] obtain k where
      "truncate_addresses n =
            Inr (n\<lparr>address_list_cache := Some (take k (fst (address_list n))),
                    addresses := join '';'' (take k (fst (address_list n)))\<rparr>)"
      by blast
    then show ?thesis using False by auto
  qed
  then show ?thesis
    by (simp add: format_addresses_eq normalize_startswith normalize_endswith)
qed

text \<open>
  Claim C4 as stated fails: truncating the two addresses of 300 characters stores the
  first address alone, with no leading and no trailing delimiter.
\<close>

theorem truncate_addresses_not_bounded:
  "map_sum id addresses (truncate_addresses two_long) = Inr (replicate 300 (CHR ''a''))
   \<and> \<not> startswith (replicate 300 (CHR ''a'')) (CHR '';'')"
  by code_simp

section \<open>Identity lookup\<close>

lemma is_prefix_iff: "is_prefix p s \<longleftrightarrow> (\<exists>v. s = p @ v)"
  by (induction p s rule: is_prefix.induct) auto

lemma contains_iff: "contains s pat \<longleftrightarrow> (\<exists>u v. s = u @ pat @ v)"
proof (induction s)
  case Nil
  then show ?case by simp
next
  case (Cons c cs)
  show ?case
  proof
    assume "contains (c # cs) pat"
    then consider "is_prefix pat (c # cs)" | "contains cs pat" by auto
    then show "\<exists>u v. c # cs = u @ pat @ v"
    proof cases
      case 1
      then obtain v where "c # cs = pat @ v" by (auto simp: is_prefix_iff)
      then have "c # cs = [] @ pat @ v" by simp
      then show ?thesis by blast
    next
      case 2
      then obtain u v where "cs = u @ pat @ v" using Cons.IH by blast
      then have "c # cs = (c # u) @ pat @ v" by simp
      then show ?thesis by blast
    qed
  next
    assume "\<exists>u v. c # cs = u @ pat @ v"
    then obtain u v where uv: "c # cs = u @ pat @ v" by blast
    show "contains (c # cs) pat"
    proof (cases u)
      case Nil
      then have "is_prefix pat (c # cs)" using uv by (auto simp: is_prefix_iff)
      then show ?thesis by simp
    next
      case (Cons d u')
      then have "cs = u' @ pat @ v" using uv by simp
      then have "contains cs pat" using Cons.IH by blast
      then show ?thesis by simp
    qed
  qed
qed

lemma first_None: "first rs = None \<longleftrightarrow> rs = []"
  by (induction rs) (auto split: option.splits)

lemma first_mem: "first rs = Some n \<Longrightarrow> n \<in> set rs"
  by (induction rs arbitrary: n) (auto split: option.splits if_splits)

lemma first_least: "first rs = Some n \<Longrightarrow> r \<in> set rs \<Longrightarrow> pk n \<le> pk r"
  by (induction rs arbitrary: n) (fastforce split: option.splits if_splits simp: first_None)+

lemma snoc_eq_append_Cons:
  "c \<notin> set s \<Longrightarrow> s @ [c] = p @ c # q \<Longrightarrow> p = s \<and> q = []"
proof (induction s arbitrary: p)
  case Nil
  then show ?case by (cases p) auto
next
  case (Cons d s)
  then show ?case by (cases p) auto
qed

lemma bounded_single:
  assumes "CHR '';'' \<notin> set s"
  shows "contains ('';'' @ s @ '';'') (bounded_address a) \<longleftrightarrow> a = s"
proof
  assume "contains ('';'' @ s @ '';'') (bounded_address a)"
  then obtain u v where uv: "'';'' @ s @ '';'' = u @ '';'' @ a @ '';'' @ v"
    by (auto simp: contains_iff bounded_address_def)
  show "a = s"
  proof (cases u)
    case Nil
    then have "s @ [CHR '';''] = a @ CHR '';'' # v" using uv by simp
    from snoc_eq_append_Cons[OF assms this] show ?thesis by simp
  next
    case (Cons c u')
    then have "s @ [CHR '';''] = u' @ CHR '';'' # (a @ CHR '';'' # v)" using uv by auto
    from snoc_eq_append_Cons[OF assms this] show ?thesis by simp
  qed
next
  assume "a = s"
  then have "'';'' @ s @ '';'' = [] @ bounded_address a @ []" by (simp add: bounded_address_def)
  then show "contains ('';'' @ s @ '';'') (bounded_address a)"
    unfolding contains_iff by blast
qed

lemma filter_address_iff:
  "filter_address (bounded_address a) t db
   = filter (\<lambda>r. topology r = t \<and> (\<exists>u v. addresses r = u @ '';'' @ a @ '';'' @ v)) (nodes db)"
  by (simp add: filter_address_def contains_iff bounded_address_def)

lemma strict_extension_no_match:
  assumes "x \<noteq> []" "CHR '';'' \<notin> set (a @ x)" "addresses m = '';'' @ a @ x @ '';''"
  shows "\<not> contains (addresses m) (bounded_address a)"
proof -
  have "contains ('';'' @ (a @ x) @ '';'') (bounded_address a) \<longleftrightarrow> a = a @ x"
    using assms(2) by (rule bounded_single)
  then show ?thesis using assms(1,3) by simp
qed

text \<open>
  Claim C10. \<open>get_from_address\<close> returns the first node, and \<open>count_address\<close> counts
  the nodes, of the topology whose stored \<open>addresses\<close> has \<open>;address;\<close> as a
  substring, and no other node matches. A node whose only address is the queried address
  followed by at least one more character, stored between its delimiters, is not matched:
  it is never the node returned, and alone in the table it gives no node and the count 0.
\<close>

theorem lookup_delimiter_bounded:
  "get_from_address a t db
     = first (filter (\<lambda>r. topology r = t \<and> (\<exists>u v. addresses r = u @ '';'' @ a @ '';'' @ v)) (nodes db))
   \<and> count_address a t db
     = length (filter (\<lambda>r. topology r = t \<and> (\<exists>u v. addresses r = u @ '';'' @ a @ '';'' @ v)) (nodes db))
   \<and> (x \<noteq> [] \<and> CHR '';'' \<notin> set (a @ x) \<and> addresses m = '';'' @ a @ x @ '';'' \<longrightarrow>
        get_from_address a t db \<noteq> Some m
      \<and> get_from_address a t (db\<lparr>nodes := [m]\<rparr>) = None
      \<and> count_address a t (db\<lparr>nodes := [m]\<rparr>) = 0)"
proof -
  have 1: "get_from_address a t db
     = first (filter (\<lambda>r. topology r = t \<and> (\<exists>u v. addresses r = u @ '';'' @ a @ '';'' @ v)) (nodes db))"
    by (simp add: get_from_address_def Let_def filter_address_iff)
  have 2: "count_address a t db
     = length (filter (\<lambda>r. topology r = t \<and> (\<exists>u v. addresses r = u @ '';'' @ a @ '';'' @ v)) (nodes db))"
    by (simp add: count_address_def Let_def filter_address_iff)
  have 3: "get_from_address a t db \<noteq> Some m
      \<and> get_from_address a t (db\<lparr>nodes := [m]\<rparr>) = None
      \<and> count_address a t (db\<lparr>nodes := [m]\<rparr>) = 0"
    if h: "x \<noteq> []" "CHR '';'' \<notin> set (a @ x)" "addresses m = '';'' @ a @ x @ '';''"
  proof -
    have nm: "\<not> contains (addresses m) (bounded_address a)"
      using h by (rule strict_extension_no_match)
    have "get_from_address a t db \<noteq> Some m"
    proof
      assume "get_from_address a t db = Some m"
      then have "m \<in> set (filter_address (bounded_address a) t db)"
        by (auto simp: get_from_address_def Let_def dest: first_mem)
      then show False using nm by (simp add: filter_address_def)
    qed
    then show ?thesis using nm
      by (simp add: get_from_address_def count_address_def Let_def filter_address_def)
  qed
  show ?thesis using 1 2 3 by blast
qed

text \<open>
  The lookup of \<open>10.0.0.1\<close> in a table that holds the nodes \<open>10.0.0.1\<close> and
  \<open>10.0.0.10\<close>.
\<close>

theorem lookup_delimiter_bounded_witness:
  "''0'' \<noteq> [] \<and> CHR '';'' \<notin> set (''10.0.0.1'' @ ''0'')
   \<and> addresses node_10 = '';'' @ ''10.0.0.1'' @ ''0'' @ '';''
   \<and> get_from_address ''10.0.0.1'' 1 lookup_db \<noteq> Some node_10
   \<and> get_from_address ''10.0.0.1'' 1 (lookup_db\<lparr>nodes := [node_10]\<rparr>) = None
   \<and> count_address ''10.0.0.1'' 1 (lookup_db\<lparr>nodes := [node_10]\<rparr>) = 0
   \<and> get_from_address ''10.0.0.1'' 1 lookup_db = Some node_1
   \<and> count_address ''10.0.0.1'' 1 lookup_db = 1
   \<and> get_from_address ''10.0.0.10'' 1 lookup_db = Some node_10"
proof -
  have h: "''0'' \<noteq> [] \<and> CHR '';'' \<notin> set (''10.0.0.1'' @ ''0'')
      \<and> addresses node_10 = '';'' @ ''10.0.0.1'' @ ''0'' @ '';''"
    by (simp add: node_10_def)
  from lookup_delimiter_bounded[of "''10.0.0.1''" 1 lookup_db "''0''" node_10] h
  have c: "get_from_address ''10.0.0.1'' 1 lookup_db \<noteq> Some node_10
      \<and> get_from_address ''10.0.0.1'' 1 (lookup_db\<lparr>nodes := [node_10]\<rparr>) = None
      \<and> count_address ''10.0.0.1'' 1 (lookup_db\<lparr>nodes := [node_10]\<rparr>) = 0"
    by blast
  have e1: "get_from_address ''10.0.0.1'' 1 lookup_db = Some node_1"
    by code_simp
  have e2: "count_address ''10.0.0.1'' 1 lookup_db = 1"
    by code_simp
  have e3: "get_from_address ''10.0.0.10'' 1 lookup_db = Some node_10"
    by code_simp
  show ?thesis using h c e1 e2 e3 by blast
qed

section \<open>The sweep\<close>

lemma delete_each_nodes:
  "nodes (delete_each ns db) = filter (\<lambda>r. pk r \<notin> pk ` set ns) (nodes db)"
proof (induction ns arbitrary: db)
  case Nil
  then show ?case by simp
next
  case (Cons n ns)
  have "nodes (delete_each (n # ns) db)
        = filter (\<lambda>r. pk r \<notin> pk ` set ns) (filter (\<lambda>r. pk r \<noteq> pk n) (nodes db))"
    by (simp add: Cons.IH delete_def)
  also have "\<dots> = filter (\<lambda>r. pk r \<notin> pk ` set (n # ns)) (nodes db)"
    by (auto intro: filter_cong)
  finally show ?case .
qed

lemma delete_each_links: "links (delete_each ns db) = links db"
  by (induction ns arbitrary: db) (simp_all add: delete_def)

lemma filter_out_selected:
  assumes "distinct (map pk xs)"
  shows "filter (\<lambda>r. pk r \<notin> pk ` set (filter P xs)) xs = filter (\<lambda>r. \<not> P r) xs"
proof (rule filter_cong[OF refl])
  fix r assume r: "r \<in> set xs"
  have "inj_on pk (set xs)" using assms by (simp add: distinct_map)
  then have "pk r \<in> pk ` set (filter P xs) \<longleftrightarrow> P r"
    using r by (auto dest: inj_onD)
  then show "(pk r \<notin> pk ` set (filter P xs)) = (\<not> P r)" by simp
qed

lemma filter_expired_eq:
  "filter_expired date db
   = filter (\<lambda>n. modified n < date
       \<and> (\<forall>l \<in> set (links db). source l \<noteq> pk n \<and> target l \<noteq> pk n)) (nodes db)"
  unfolding filter_expired_def
  by (rule filter_cong[OF refl]) (auto simp: filter_empty_conv)

lemma delete_expired_nodes_zero:
  "delete_expired_nodes (SInt 0) LINK now db = Inr (db, [])"
  by (simp add: delete_expired_nodes_def)

text \<open>
  Claim C1. In a table with unique primary keys: when \<open>NODE_EXPIRATION\<close> or
  \<open>LINK_EXPIRATION\<close> is \<open>None\<close> or \<open>False\<close> the sweep changes nothing and reports
  nothing; when both are positive numbers of days, the nodes left are exactly those not
  both modified before \<open>now\<close> minus \<open>NODE_EXPIRATION\<close> days and free of links as source
  and as target, in their order, and the links are untouched.
\<close>

theorem delete_expired_nodes_sweep:
  assumes "distinct (map pk (nodes db))"
  shows "(NODE \<in> {SNone, SBool False} \<or> LINK \<in> {SNone, SBool False} \<longrightarrow>
            delete_expired_nodes NODE LINK now db = Inr (db, []))
       \<and> (0 < d \<and> 0 < e \<longrightarrow>
            (\<exists>db' log. delete_expired_nodes (SInt d) (SInt e) now db = Inr (db', log)
               \<and> nodes db' = filter (\<lambda>n. \<not> (modified n < now - d * 86400000000
                      \<and> (\<forall>l \<in> set (links db). source l \<noteq> pk n \<and> target l \<noteq> pk n))) (nodes db)
               \<and> links db' = links db))"
proof -
  have 1: "delete_expired_nodes NODE LINK now db = Inr (db, [])"
    if "NODE \<in> {SNone, SBool False} \<or> LINK \<in> {SNone, SBool False}"
    using that by (auto simp: delete_expired_nodes_def)
  have 2: "\<exists>db' log. delete_expired_nodes (SInt d) (SInt e) now db = Inr (db', log)
               \<and> nodes db' = filter (\<lambda>n. \<not> (modified n < now - d * 86400000000
                      \<and> (\<forall>l \<in> set (links db). source l \<noteq> pk n \<and> target l \<noteq> pk n))) (nodes db)
               \<and> links db' = links db"
    if "0 < d \<and> 0 < e"
  proof -
    define E :: "node \<Rightarrow> bool" where "E = (\<lambda>n. modified n < now - d * 86400000000
                      \<and> (\<forall>l \<in> set (links db). source l \<noteq> pk n \<and> target l \<noteq> pk n))"
    have fe: "filter_expired (now - timedelta_days d) db = filter E (nodes db)"
      by (simp add: filter_expired_eq E_def timedelta_days_def)
    have keep: "nodes (delete_each (filter E (nodes db)) db) = filter (\<lambda>n. \<not> E n) (nodes db)"
      using filter_out_selected[OF assms, of E] by (simp only: delete_each_nodes)
    show ?thesis
    proof (cases "filter E (nodes db) = []")
      case True
      then have "filter (\<lambda>n. \<not> E n) (nodes db) = nodes db"
        by (auto simp: filter_empty_conv filter_id_conv)
      moreover have "delete_expired_nodes (SInt d) (SInt e) now db = Inr (db, [])"
        using that True by (simp add: delete_expired_nodes_def Let_def fe)
      ultimately show ?thesis unfolding E_def by auto
    next
      case False
      then have "delete_expired_nodes (SInt d) (SInt e) now db
          = Inr (delete_each (filter E (nodes db)) db, [length (filter E (nodes db))])"
        using that by (simp add: delete_expired_nodes_def Let_def fe)
      then show ?thesis using keep delete_each_links unfolding E_def by auto
    qed
  qed
  show ?thesis using 1 2 by blast
qed

lemma sweep_db_distinct: "distinct (map pk (nodes sweep_db))"
  by (simp add: sweep_db_def)

text \<open>
  The sweep of the spec's scenario, 30 days for both settings: node 1 (40 days old, no
  link) is deleted; node 2 (40 days old, source of a link), node 3 (10 days old, no
  link) and node 4 (target of the link) stay.
\<close>

theorem delete_expired_nodes_sweep_witness:
  "distinct (map pk (nodes sweep_db))
   \<and> delete_expired_nodes SNone (SInt 30) now0 sweep_db = Inr (sweep_db, [])
   \<and> delete_expired_nodes (SInt 30) (SBool False) now0 sweep_db = Inr (sweep_db, [])
   \<and> (\<exists>db' log. delete_expired_nodes (SInt 30) (SInt 30) now0 sweep_db = Inr (db', log)
        \<and> nodes db' = filter (\<lambda>n. \<not> (modified n < now0 - 30 * 86400000000
               \<and> (\<forall>l \<in> set (links sweep_db). source l \<noteq> pk n \<and> target l \<noteq> pk n))) (nodes sweep_db)
        \<and> links db' = links sweep_db)
   \<and> map_sum id (\<lambda>(db', log). (map pk (nodes db'), log))
        (delete_expired_nodes (SInt 30) (SInt 30) now0 sweep_db) = Inr ([2, 3, 4], [1])"
proof -
  have a: "delete_expired_nodes SNone (SInt 30) now0 sweep_db = Inr (sweep_db, [])"
    using delete_expired_nodes_sweep[OF sweep_db_distinct, of SNone "SInt 30" now0 30 30] by simp
  have b: "delete_expired_nodes (SInt 30) (SBool False) now0 sweep_db = Inr (sweep_db, [])"
    using delete_expired_nodes_sweep[OF sweep_db_distinct, of "SInt 30" "SBool False" now0 30 30] by simp
  have c: "\<exists>db' log. delete_expired_nodes (SInt 30) (SInt 30) now0 sweep_db = Inr (db', log)
        \<and> nodes db' = filter (\<lambda>n. \<not> (modified n < now0 - 30 * 86400000000
               \<and> (\<forall>l \<in> set (links sweep_db). source l \<noteq> pk n \<and> target l \<noteq> pk n))) (nodes sweep_db)
        \<and> links db' = links sweep_db"
    using delete_expired_nodes_sweep[OF sweep_db_distinct, of SNone SNone now0 30 30] by simp
  have d: "map_sum id (\<lambda>(db', log). (map pk (nodes db'), log))
        (delete_expired_nodes (SInt 30) (SInt 30) now0 sweep_db) = Inr ([2, 3, 4], [1])"
    by code_simp
  show ?thesis using sweep_db_distinct a b c d by blast
qed

section \<open>Serialization\<close>

text \<open>
  Claim C9 fails on the code. For a node with the address \<open>aa:bb:cc:dd:ee:ff\<close> and an
  empty \<open>properties\<close> dictionary, \<open>json\<close> returns a mapping whose \<open>properties\<close> is the
  node's own dictionary, and after the call that dictionary, empty before, holds the
  keys \<open>created\<close> and \<open>modified\<close>.
\<close>

theorem json_writes_into_node_properties:
  "map_sum id (\<lambda>(j, n', h'). (j, properties n', h' 0))
     (json dumps True (node0\<lparr>addresses := '';aa:bb:cc:dd:ee:ff;''\<rparr>) heap0)
   = Inr (JDict [(''id'', PStr ''aa:bb:cc:dd:ee:ff''), (''properties'', PRef 0)],
          Some 0, [(''created'', PTime 5), (''modified'', PTime 6)])
   \<and> heap0 0 = []"
  by (simp add: json_def netjson_id_def local_addresses_def address_list_def
      address_list_body_def replace_def set_properties_item_def opt_str_def opt_list_def
      opt_ref_def node0_def heap0_def Let_def)

end
